theory Spec2Isabelle
  imports Complex_Main "HOL-Library.Sublist"
begin

section \<open>Strings and characters\<close>

text \<open>
  The ingredient-extraction code of the image-analysis function works on JavaScript
  strings. A string is modelled as a \<open>char list\<close>; a \<open>char\<close> is read as one code unit of
  the Latin-1 range (0 to 255), so \<open>length\<close> counts code units as the \<open>length\<close> property
  of a JavaScript string does. The built-in operations below are written out for that
  range.
\<close>

definition code :: "char \<Rightarrow> nat" where
  "code c = of_char c"

definition isLowerAZ :: "char \<Rightarrow> bool" where
  "isLowerAZ c = (97 \<le> code c \<and> code c \<le> 122)"

definition isUpperAZ :: "char \<Rightarrow> bool" where
  "isUpperAZ c = (65 \<le> code c \<and> code c \<le> 90)"

definition isDigit :: "char \<Rightarrow> bool" where
  "isDigit c = (48 \<le> code c \<and> code c \<le> 57)"

text \<open>
  The members below 256 of the class \<open>\s\<close> of a regular expression, which is also the
  set of characters that \<open>trim()\<close> removes: tab, line feed, vertical tab, form feed,
  carriage return, space and no-break space. The class has further members (U+1680,
  U+2000 to U+200A, U+2028, U+2029, U+202F, U+205F, U+3000 and U+FEFF); they all lie
  beyond the code units of this string model, so \<open>isWhiteSpace\<close> is the class restricted
  to the modelled range and says nothing about those characters.
\<close>

definition isWhiteSpace :: "char \<Rightarrow> bool" where
  "isWhiteSpace c = (code c \<in> {9, 10, 11, 12, 13, 32, 160})"

text \<open>The class \<open>\w\<close>, which decides where \<open>\b\<close> matches.\<close>

definition isWordChar :: "char \<Rightarrow> bool" where
  "isWordChar c = (isLowerAZ c \<or> isUpperAZ c \<or> isDigit c \<or> code c = 95)"

text \<open>
  \<open>String.prototype.toLowerCase\<close>: the capital letters A to Z and the capital letters
  of the upper half (192 to 222, the multiplication sign 215 apart) move up by 32.
\<close>

definition toLowerCase_char :: "char \<Rightarrow> char" where
  "toLowerCase_char c =
     (if isUpperAZ c \<or> (192 \<le> code c \<and> code c \<le> 222 \<and> code c \<noteq> 215)
      then char_of (code c + 32) else c)"

definition toLowerCase :: "string \<Rightarrow> string" where
  "toLowerCase s = map toLowerCase_char s"

text \<open>
  \<open>String.prototype.toUpperCase\<close>: the small letters a to z and 224 to 254 (the division
  sign 247 apart) move down by 32, and the sharp s (223) becomes \<open>SS\<close>. The capital
  forms of the micro sign (181) and of y with diaeresis (255) lie beyond the 8-bit
  range; the model leaves these two characters as they are. \<open>normalizeIngredient\<close>
  upper-cases only characters that survived its stripping step (lemma
  \<open>strip_chars\<close>), so it never reaches them.
\<close>

definition toUpperCase_char :: "char \<Rightarrow> string" where
  "toUpperCase_char c =
     (if isLowerAZ c \<or> (224 \<le> code c \<and> code c \<le> 254 \<and> code c \<noteq> 247)
      then [char_of (code c - 32)]
      else if code c = 223 then ''SS''
      else [c])"

definition toUpperCase :: "string \<Rightarrow> string" where
  "toUpperCase s = concat (map toUpperCase_char s)"

text \<open>\<open>String.prototype.includes\<close>: the search string occurs at some position.\<close>

fun startsWith :: "string \<Rightarrow> string \<Rightarrow> bool" where
  "startsWith s [] = True"
| "startsWith [] (k # ks) = False"
| "startsWith (c # cs) (k # ks) = (if c = k then startsWith cs ks else False)"

fun str_includes :: "string \<Rightarrow> string \<Rightarrow> bool" where
  "str_includes [] k = startsWith [] k"
| "str_includes (c # cs) k = (if startsWith (c # cs) k then True else str_includes cs k)"

text \<open>\<open>Array.prototype.some\<close>: stops at the first element that satisfies the test.\<close>

fun array_some :: "('a \<Rightarrow> bool) \<Rightarrow> 'a list \<Rightarrow> bool" where
  "array_some p [] = False"
| "array_some p (x # xs) = (if p x then True else array_some p xs)"

text \<open>\<open>String.prototype.trim\<close>.\<close>

definition trim :: "string \<Rightarrow> string" where
  "trim s = rev (dropWhile isWhiteSpace (rev (dropWhile isWhiteSpace s)))"

text \<open>
  \<open>split(' ')\<close>: the pieces between the single spaces; the empty string gives one empty
  piece, and two spaces in a row give an empty piece between them.
\<close>

fun split_space :: "string \<Rightarrow> string list" where
  "split_space [] = ['''']"
| "split_space (c # cs) =
     (if c = CHR '' '' then [] # split_space cs
      else (case split_space cs of
              [] \<Rightarrow> [c # []]
            | w # ws \<Rightarrow> (c # w) # ws))"

text \<open>\<open>join(' ')\<close>.\<close>

fun join_space :: "string list \<Rightarrow> string" where
  "join_space [] = []"
| "join_space [w] = w"
| "join_space (w # v # ws) = w @ CHR '' '' # join_space (v # ws)"

section \<open>The label classifier\<close>

definition foodKeywords :: "string list" where
  "foodKeywords =
    [''food'', ''ingredient'', ''vegetable'', ''fruit'', ''meat'', ''dairy'', ''grain'',
     ''spice'', ''herb'', ''sauce'', ''oil'', ''vinegar'', ''cheese'', ''milk'', ''egg'',
     ''bread'', ''pasta'', ''rice'', ''bean'', ''nut'', ''seed'', ''fish'', ''chicken'',
     ''beef'', ''pork'', ''lamb'', ''turkey'', ''onion'', ''garlic'', ''tomato'', ''potato'',
     ''carrot'', ''pepper'', ''mushroom'', ''lettuce'', ''spinach'', ''broccoli'',
     ''apple'', ''banana'', ''orange'', ''lemon'', ''lime'', ''strawberry'', ''blueberry'',
     ''cucumber'', ''zucchini'', ''corn'', ''peas'', ''cabbage'', ''cauliflower'',
     ''celery'', ''avocado'', ''mango'', ''pineapple'', ''grapes'', ''berries'']"

definition isFoodRelated :: "string \<Rightarrow> bool" where
  "isFoodRelated label =
     (let labelLower = toLowerCase label
      in array_some (\<lambda>keyword. str_includes labelLower keyword \<or> str_includes keyword labelLower)
           foodKeywords)"

section \<open>The text miner\<close>

text \<open>
  The patterns built by \<open>extractIngredientsFromText\<close> use three constructs: the
  assertion \<open>\b\<close>, a literal character, and a literal character under the greedy
  quantifier \<open>?\<close>.
\<close>

datatype atom = WordBoundary | Lit char | Opt char

text \<open>
  The template \<open>\b${ingredient}s?\b\<close>. Every character of every dictionary term is a
  small letter or a space (lemma \<open>commonIngredients_chars\<close>), so each stands for
  itself in the pattern.
\<close>

definition ingredient_regex :: "string \<Rightarrow> atom list" where
  "ingredient_regex ingredient =
     WordBoundary # map Lit ingredient @ [Opt (CHR ''s''), WordBoundary]"

text \<open>
  Comparison under the flag \<open>i\<close> (without \<open>u\<close>) is on canonical forms: the upper-case
  form of the character, unless that is more than one code unit or maps a code unit
  from 128 on to one below 128. The canonical forms of the micro sign and of y with
  diaeresis are the code units 924 and 376, so the result is a code unit value.
\<close>

definition canonicalize :: "char \<Rightarrow> nat" where
  "canonicalize c =
     (if isLowerAZ c \<or> (224 \<le> code c \<and> code c \<le> 254 \<and> code c \<noteq> 247) then code c - 32
      else if code c = 181 then 924
      else if code c = 255 then 376
      else code c)"

text \<open>
  The backtracking matcher: \<open>match_here as prev rest\<close> tries the atoms at the current
  position, \<open>prev\<close> being the character before it (\<open>None\<close> at the start of the text)
  and \<open>rest\<close> the text from it on.
\<close>

definition prevIsWord :: "char option \<Rightarrow> bool" where
  "prevIsWord prev = (case prev of None \<Rightarrow> False | Some c \<Rightarrow> isWordChar c)"

definition nextIsWord :: "string \<Rightarrow> bool" where
  "nextIsWord rest = (case rest of [] \<Rightarrow> False | c # _ \<Rightarrow> isWordChar c)"

fun match_here :: "atom list \<Rightarrow> char option \<Rightarrow> string \<Rightarrow> bool" where
  "match_here [] prev rest = True"
| "match_here (WordBoundary # as) prev rest =
     (if prevIsWord prev \<noteq> nextIsWord rest then match_here as prev rest else False)"
| "match_here (Lit p # as) prev [] = False"
| "match_here (Lit p # as) prev (c # cs) =
     (if canonicalize c = canonicalize p then match_here as (Some c) cs else False)"
| "match_here (Opt p # as) prev [] = match_here as prev []"
| "match_here (Opt p # as) prev (c # cs) =
     (if canonicalize c = canonicalize p
      then (if match_here as (Some c) cs then True else match_here as prev (c # cs))
      else match_here as prev (c # cs))"

text \<open>\<open>RegExp.prototype.test\<close> without the flag \<open>g\<close>: every start position from 0 on.\<close>

fun search_from :: "atom list \<Rightarrow> char option \<Rightarrow> string \<Rightarrow> bool" where
  "search_from as prev [] = match_here as prev []"
| "search_from as prev (c # cs) =
     (if match_here as prev (c # cs) then True else search_from as (Some c) cs)"

definition regex_test :: "atom list \<Rightarrow> string \<Rightarrow> bool" where
  "regex_test as text = search_from as None text"

definition commonIngredients :: "string list" where
  "commonIngredients =
    [''flour'', ''sugar'', ''salt'', ''pepper'', ''oil'', ''butter'', ''milk'', ''eggs'',
     ''onion'', ''garlic'', ''tomato'', ''potato'', ''carrot'', ''celery'', ''parsley'',
     ''basil'', ''oregano'', ''thyme'', ''rosemary'', ''chicken'', ''beef'', ''pork'',
     ''fish'', ''cheese'', ''cream'', ''yogurt'', ''lemon'', ''lime'', ''vinegar'',
     ''soy sauce'', ''olive oil'', ''coconut oil'', ''honey'', ''vanilla'', ''cinnamon'',
     ''ginger'', ''paprika'', ''cumin'', ''turmeric'', ''chili'', ''mushrooms'',
     ''spinach'', ''broccoli'', ''cauliflower'', ''zucchini'', ''eggplant'', ''peppers'',
     ''cucumber'', ''lettuce'', ''cabbage'', ''kale'', ''arugula'', ''cilantro'',
     ''mint'', ''dill'', ''sage'', ''bay leaves'', ''nutmeg'', ''cardamom'', ''cloves'']"

text \<open>The loop over the dictionary, \<open>found\<close> being the array it pushes to.\<close>

fun extract_loop :: "string list \<Rightarrow> string \<Rightarrow> string list \<Rightarrow> string list" where
  "extract_loop [] text found = found"
| "extract_loop (ingredient # rest) text found =
     (if regex_test (ingredient_regex ingredient) text
      then extract_loop rest text (found @ [ingredient])
      else extract_loop rest text found)"

definition extractIngredientsFromText :: "string \<Rightarrow> string list" where
  "extractIngredientsFromText text = extract_loop commonIngredients text []"

section \<open>The normalizer\<close>

text \<open>\<open>replace(/[^a-z\s]/g, '')\<close>: what is neither a small letter nor in \<open>\s\<close> goes.\<close>

definition strip :: "string \<Rightarrow> string" where
  "strip s = filter (\<lambda>c. isLowerAZ c \<or> isWhiteSpace c) s"

text \<open>\<open>word.charAt(0).toUpperCase() + word.slice(1)\<close>.\<close>

definition capitalize :: "string \<Rightarrow> string" where
  "capitalize word = toUpperCase (take 1 word) @ drop 1 word"

definition normalizeIngredient :: "string \<Rightarrow> string" where
  "normalizeIngredient ingredient =
     join_space (map capitalize (split_space (trim (strip (toLowerCase ingredient)))))"

section \<open>The aggregation step of the request handler\<close>

text \<open>
  The image service answers with JSON, which the handler reads untyped. Label and text
  annotations are objects of one shape; a field that the handler reads may be missing,
  so both fields are optional in the model. A text annotation carries no score.
\<close>

record EntityAnnotation =
  description :: "string option"
  score :: "real option"

record AnnotateImageResponse =
  labelAnnotations :: "EntityAnnotation list option"
  textAnnotations :: "EntityAnnotation list option"

text \<open>
  Calling \<open>toLowerCase\<close> on a missing description raises a \<open>TypeError\<close>; the
  \<open>try\<close> block around the handler turns it into the answer with status 500.
\<close>

datatype error = TypeError

text \<open>\<open>label.score > 0.5\<close>; a missing score compares as false.\<close>

definition scoreAbove :: "EntityAnnotation \<Rightarrow> bool" where
  "scoreAbove label = (case score label of None \<Rightarrow> False | Some s \<Rightarrow> s > 0.5)"

text \<open>
  The \<open>filter\<close> call on the labels. Its callback is
  \<open>label.score > 0.5 && isFoodRelated(label.description)\<close>: the right operand is
  evaluated, and may raise, only when the left one holds.
\<close>

fun filter_labels :: "EntityAnnotation list \<Rightarrow> error + EntityAnnotation list" where
  "filter_labels [] = Inr []"
| "filter_labels (label # rest) =
     (if scoreAbove label
      then (case description label of
              None \<Rightarrow> Inl TypeError
            | Some d \<Rightarrow>
                (case filter_labels rest of
                   Inl e \<Rightarrow> Inl e
                 | Inr kept \<Rightarrow> Inr (if isFoodRelated d then label # kept else kept)))
      else filter_labels rest)"

text \<open>The \<open>map\<close> call: \<open>normalizeIngredient(label.description)\<close> for each label kept.\<close>

fun map_normalize :: "EntityAnnotation list \<Rightarrow> error + string list" where
  "map_normalize [] = Inr []"
| "map_normalize (label # rest) =
     (case description label of
        None \<Rightarrow> Inl TypeError
      | Some d \<Rightarrow>
          (case map_normalize rest of
             Inl e \<Rightarrow> Inl e
           | Inr ns \<Rightarrow> Inr (normalizeIngredient d # ns)))"

definition foodLabels :: "EntityAnnotation list \<Rightarrow> error + string list" where
  "foodLabels labels =
     (case filter_labels labels of Inl e \<Rightarrow> Inl e | Inr kept \<Rightarrow> map_normalize kept)"

text \<open>
  The array \<open>ingredients\<close> after the two \<open>push\<close> calls. The first is made when
  \<open>labelAnnotations\<close> is present, the second when \<open>textAnnotations\<close> is present and
  has a first element.
\<close>

definition collectIngredients :: "AnnotateImageResponse \<Rightarrow> error + string list" where
  "collectIngredients response =
     (case (case labelAnnotations response of
              None \<Rightarrow> Inr []
            | Some labels \<Rightarrow> foodLabels labels) of
        Inl e \<Rightarrow> Inl e
      | Inr ingredients \<Rightarrow>
          (case textAnnotations response of
             None \<Rightarrow> Inr ingredients
           | Some [] \<Rightarrow> Inr ingredients
           | Some (first # _) \<Rightarrow>
               (case description first of
                  None \<Rightarrow> Inl TypeError
                | Some d \<Rightarrow>
                    Inr (ingredients @
                         map normalizeIngredient
                           (extractIngredientsFromText (toLowerCase d))))))"

text \<open>
  A JavaScript \<open>Set\<close> keeps its elements in the order of their first insertion; it is
  modelled as the list of its elements in that order, and \<open>new Set(array)\<close> adds the
  elements of the array one by one.
\<close>

definition set_add :: "string list \<Rightarrow> string \<Rightarrow> string list" where
  "set_add s x = (if x \<in> set s then s else s @ [x])"

definition new_Set :: "string list \<Rightarrow> string list" where
  "new_Set xs = foldl set_add [] xs"

text \<open>
  \<open>[...new Set(ingredients)].filter(ingredient => ingredient.length > 2).slice(0, 15)\<close>.
\<close>

definition uniqueIngredients :: "string list \<Rightarrow> string list" where
  "uniqueIngredients ingredients =
     take 15 (filter (\<lambda>ingredient. length ingredient > 2) (new_Set ingredients))"

text \<open>Lines 222 to 248 of the handler: the value of \<open>uniqueIngredients\<close>, or the error.\<close>

definition analyzeImage :: "AnnotateImageResponse \<Rightarrow> error + string list" where
  "analyzeImage response =
     (case collectIngredients response of
        Inl e \<Rightarrow> Inl e
      | Inr ingredients \<Rightarrow> Inr (uniqueIngredients ingredients))"

section \<open>Notions used to state the properties\<close>

subsection \<open>What the pattern of the text miner matches\<close>

text \<open>
  Two strings are equal up to case when their characters have the same canonical
  forms. A word boundary lies between \<open>before\<close> and \<open>after\<close> when exactly one of the
  two characters next to the position is a word character; the position before the
  first and after the last character of the text counts as next to a non-word
  character.
\<close>

definition ci_equal :: "string \<Rightarrow> string \<Rightarrow> bool" where
  "ci_equal a b = (map canonicalize a = map canonicalize b)"

definition lastIsWord :: "string \<Rightarrow> bool" where
  "lastIsWord before = (before \<noteq> [] \<and> isWordChar (last before))"

definition word_boundary :: "string \<Rightarrow> string \<Rightarrow> bool" where
  "word_boundary before after = (lastIsWord before \<noteq> nextIsWord after)"

text \<open>
  The pattern built for \<open>term\<close> matches in \<open>text\<close>: some occurrence \<open>m\<close> of the term,
  or of the term with one more \<open>s\<close>, up to case, has a word boundary on each side.
\<close>

definition pattern_matches :: "string \<Rightarrow> string \<Rightarrow> bool" where
  "pattern_matches term text =
     (\<exists>u m v. text = u @ m @ v
        \<and> (ci_equal m term \<or> ci_equal m (term @ ''s''))
        \<and> word_boundary u (m @ v) \<and> word_boundary (u @ m) v)"

text \<open>The character before a position, as the matcher carries it along.\<close>

definition prev_of :: "string \<Rightarrow> char option" where
  "prev_of before = (if before = [] then None else Some (last before))"

subsection \<open>The stripped form of a string\<close>

text \<open>The first three steps of \<open>normalizeIngredient\<close>.\<close>

definition stripped :: "string \<Rightarrow> string" where
  "stripped x = trim (strip (toLowerCase x))"

subsection \<open>The matcher over canonical forms\<close>

text \<open>
  The matcher reads a character only through its canonical form and through its being
  a word character. \<open>amatch\<close> and \<open>asearch\<close> are \<open>match_here\<close> and \<open>search_from\<close> on a
  text given as the list of these pairs, so that the two are computed once for each
  character of a concrete text.
\<close>

definition cw :: "char \<Rightarrow> nat \<times> bool" where
  "cw c = (canonicalize c, isWordChar c)"

datatype aatom = AB | AL nat | AO nat

fun abs_atom :: "atom \<Rightarrow> aatom" where
  "abs_atom WordBoundary = AB"
| "abs_atom (Lit p) = AL (canonicalize p)"
| "abs_atom (Opt p) = AO (canonicalize p)"

fun nextw :: "(nat \<times> bool) list \<Rightarrow> bool" where
  "nextw [] = False"
| "nextw ((n, w) # _) = w"

fun amatch :: "aatom list \<Rightarrow> bool \<Rightarrow> (nat \<times> bool) list \<Rightarrow> bool" where
  "amatch [] pw rest = True"
| "amatch (AB # as) pw rest = (if pw \<noteq> nextw rest then amatch as pw rest else False)"
| "amatch (AL p # as) pw [] = False"
| "amatch (AL p # as) pw ((n, w) # cs) = (if n = p then amatch as w cs else False)"
| "amatch (AO p # as) pw [] = amatch as pw []"
| "amatch (AO p # as) pw ((n, w) # cs) =
     (if n = p then (if amatch as w cs then True else amatch as pw ((n, w) # cs))
      else amatch as pw ((n, w) # cs))"

fun asearch :: "aatom list \<Rightarrow> bool \<Rightarrow> (nat \<times> bool) list \<Rightarrow> bool" where
  "asearch as pw [] = amatch as pw []"
| "asearch as pw ((n, w) # cs) = (if amatch as pw ((n, w) # cs) then True else asearch as w cs)"

fun aextract :: "string list \<Rightarrow> (nat \<times> bool) list \<Rightarrow> string list" where
  "aextract [] ct = []"
| "aextract (t # ts) ct =
     (if asearch (map abs_atom (ingredient_regex t)) False ct then t # aextract ts ct
      else aextract ts ct)"

subsection \<open>Well-formed answers and the steps of the aggregation\<close>

text \<open>
  An answer of the image service is well formed when every annotation in it carries its
  description.
\<close>

definition wellformed :: "AnnotateImageResponse \<Rightarrow> bool" where
  "wellformed response =
     ((case labelAnnotations response of
         None \<Rightarrow> True
       | Some labels \<Rightarrow> list_all (\<lambda>l. description l \<noteq> None) labels)
      \<and> (case textAnnotations response of
            None \<Rightarrow> True
          | Some texts \<Rightarrow> list_all (\<lambda>t. description t \<noteq> None) texts))"

text \<open>
  The answer made of a list of labels, each a description with its score, and of an
  optional block of recognised text.
\<close>

definition label_of :: "string \<times> real \<Rightarrow> EntityAnnotation" where
  "label_of = (\<lambda>(d, s). \<lparr>description = Some d, score = Some s\<rparr>)"

definition text_of :: "string \<Rightarrow> EntityAnnotation" where
  "text_of t = \<lparr>description = Some t, score = None\<rparr>"

definition response_of :: "(string \<times> real) list \<Rightarrow> string option \<Rightarrow> AnnotateImageResponse" where
  "response_of labels rawText =
     \<lparr>labelAnnotations = Some (map label_of labels),
      textAnnotations = map_option (\<lambda>t. [text_of t]) rawText\<rparr>"

text \<open>Removing duplicates, the first occurrence of each element staying in place.\<close>

fun keep_first :: "'a list \<Rightarrow> 'a list" where
  "keep_first [] = []"
| "keep_first (x # xs) = x # removeAll x (keep_first xs)"

text \<open>
  The steps as the specification lists them: the labels above the cutoff that are food
  related, normalized; the dictionary terms mined from the lowercased text,
  normalized; both in this order, without duplicates, without entries of length 2 or
  less, and cut to 15 entries.
\<close>

definition spec_labels :: "(string \<times> real) list \<Rightarrow> string list" where
  "spec_labels labels =
     map (\<lambda>(d, s). normalizeIngredient d) (filter (\<lambda>(d, s). s > 0.5 \<and> isFoodRelated d) labels)"

definition spec_mined :: "string option \<Rightarrow> string list" where
  "spec_mined rawText =
     (case rawText of
        None \<Rightarrow> []
      | Some t \<Rightarrow> map normalizeIngredient (extractIngredientsFromText (toLowerCase t)))"

definition spec_extractIngredients :: "(string \<times> real) list \<Rightarrow> string option \<Rightarrow> string list" where
  "spec_extractIngredients labels rawText =
     take 15 (filter (\<lambda>i. \<not> length i \<le> 2)
                (keep_first (spec_labels labels @ spec_mined rawText)))"

text \<open>The end-to-end scenario of the specification.\<close>

definition scenario :: AnnotateImageResponse where
  "scenario =
     \<lparr>labelAnnotations =
        Some [\<lparr>description = Some ''Vegetable'', score = Some 0.8\<rparr>,
              \<lparr>description = Some ''Car'', score = Some 0.95\<rparr>],
      textAnnotations =
        Some [\<lparr>description = Some ''recipe calls for 2 eggs and fresh basil leaves'',
               score = None\<rparr>]\<rparr>"

text \<open>
  Twenty-eight labels that all pass the classifier, for the bound on the length of the
  answer.
\<close>

definition many_names :: "string list" where
  "many_names =
     [''Food'', ''Ingredient'', ''Vegetable'', ''Fruit'', ''Meat'', ''Dairy'', ''Grain'',
      ''Spice'', ''Herb'', ''Sauce'', ''Oil'', ''Vinegar'', ''Cheese'', ''Milk'', ''Egg'',
      ''Bread'', ''Pasta'', ''Rice'', ''Bean'', ''Nut'', ''Seed'', ''Fish'', ''Chicken'',
      ''Beef'', ''Pork'', ''Lamb'', ''Turkey'', ''Onion'']"

definition many_labels :: "(string \<times> real) list" where
  "many_labels = map (\<lambda>d. (d, 0.9)) many_names"

section \<open>Substring search\<close>

lemma startsWith_prefix: "startsWith s k \<longleftrightarrow> prefix k s"
  by (induction s k rule: startsWith.induct) auto

lemma str_includes_sublist: "str_includes s k \<longleftrightarrow> sublist k s"
proof (induction s)
  case Nil
  show ?case by (cases k) auto
next
  case (Cons c cs)
  show ?case
    by (simp add: Cons.IH startsWith_prefix sublist_Cons_right)
qed

lemma array_some_iff: "array_some p xs \<longleftrightarrow> (\<exists>x\<in>set xs. p x)"
  by (induction xs) auto

section \<open>Trimming, splitting and joining\<close>

lemma strip_chars: "c \<in> set (strip s) \<Longrightarrow> isLowerAZ c \<or> isWhiteSpace c"
  by (simp add: strip_def)

lemma strip_id: "\<forall>c\<in>set s. isLowerAZ c \<or> isWhiteSpace c \<Longrightarrow> strip s = s"
  by (simp add: strip_def)

lemma set_trim: "set (trim s) \<subseteq> set s"
proof -
  have "set (trim s) = set (dropWhile isWhiteSpace (rev (dropWhile isWhiteSpace s)))"
    by (simp add: trim_def)
  also have "\<dots> \<subseteq> set (rev (dropWhile isWhiteSpace s))"
    by (rule subsetI) (erule set_dropWhileD)
  also have "\<dots> \<subseteq> set s"
    by (auto dest: set_dropWhileD)
  finally show ?thesis .
qed

lemma trim_noop:
  "(s \<noteq> [] \<Longrightarrow> \<not> isWhiteSpace (hd s) \<and> \<not> isWhiteSpace (last s)) \<Longrightarrow> trim s = s"
proof (cases s)
  case Nil
  then show ?thesis by (simp add: trim_def)
next
  case (Cons a as)
  assume "s \<noteq> [] \<Longrightarrow> \<not> isWhiteSpace (hd s) \<and> \<not> isWhiteSpace (last s)"
  with Cons have h: "\<not> isWhiteSpace (hd s)" and l: "\<not> isWhiteSpace (last s)" by auto
  from h Cons have 1: "dropWhile isWhiteSpace s = s" by simp
  from l Cons have "\<not> isWhiteSpace (hd (rev s))" by (metis hd_rev list.discI)
  with Cons have 2: "dropWhile isWhiteSpace (rev s) = rev s"
    by (cases "rev s") auto
  show ?thesis by (simp add: trim_def 1 2)
qed

lemma trim_ends:
  "trim s \<noteq> [] \<Longrightarrow> \<not> isWhiteSpace (hd (trim s)) \<and> \<not> isWhiteSpace (last (trim s))"
proof -
  assume ne: "trim s \<noteq> []"
  let ?a = "dropWhile isWhiteSpace s"
  let ?b = "dropWhile isWhiteSpace (rev ?a)"
  have t: "trim s = rev ?b" by (simp add: trim_def)
  with ne have bne: "?b \<noteq> []" by simp
  then have hb: "\<not> isWhiteSpace (hd ?b)" by (rule hd_dropWhile)
  have ane: "?a \<noteq> []"
  proof
    assume "?a = []"
    then have "?b = dropWhile isWhiteSpace (rev [])" by (rule arg_cong)
    with bne show False by simp
  qed
  then have ha: "\<not> isWhiteSpace (hd ?a)" by (rule hd_dropWhile)
  have "\<exists>ys. rev ?a = ys @ ?b"
    by (metis takeWhile_dropWhile_id)
  then obtain ys where "rev ?a = ys @ ?b" ..
  then have "?a = rev ?b @ rev ys" by (metis rev_append rev_rev_ident)
  with bne have "hd ?a = hd (rev ?b)" by (metis hd_append2 rev_is_Nil_conv)
  with ha t have 1: "\<not> isWhiteSpace (hd (trim s))" by simp
  from hb bne t have 2: "\<not> isWhiteSpace (last (trim s))" by (simp add: last_rev)
  from 1 2 show ?thesis ..
qed

lemma trim_trim: "trim (trim s) = trim s"
  by (rule trim_noop) (rule trim_ends)

lemma split_space_not_Nil: "split_space s \<noteq> []"
  by (induction s) (auto split: list.splits)

lemma join_split: "join_space (split_space s) = s"
proof (induction s)
  case Nil
  show ?case by simp
next
  case (Cons c cs)
  obtain w ws where sp: "split_space cs = w # ws"
    using split_space_not_Nil [of cs] by (cases "split_space cs") auto
  show ?case
  proof (cases "c = CHR '' ''")
    case True
    with sp Cons show ?thesis by simp
  next
    case False
    with sp Cons show ?thesis by (cases ws) auto
  qed
qed

lemma split_space_chars: "w \<in> set (split_space s) \<Longrightarrow> set w \<subseteq> set s"
proof (induction s arbitrary: w)
  case Nil
  then show ?case by simp
next
  case (Cons c cs)
  obtain v vs where sp: "split_space cs = v # vs"
    using split_space_not_Nil [of cs] by (cases "split_space cs") auto
  show ?case
  proof (cases "c = CHR '' ''")
    case True
    with Cons.prems have "w = [] \<or> w \<in> set (split_space cs)" by auto
    with Cons.IH show ?thesis by auto
  next
    case False
    with Cons.prems sp have "w = c # v \<or> w \<in> set vs" by auto
    moreover have "set v \<subseteq> set cs" using Cons.IH [of v] sp by simp
    moreover have "w \<in> set vs \<Longrightarrow> set w \<subseteq> set cs" using Cons.IH [of w] sp by simp
    ultimately show ?thesis by auto
  qed
qed

lemma toLowerCase_join:
  "toLowerCase (join_space ws) = join_space (map toLowerCase ws)"
proof (induction ws rule: join_space.induct)
  case (3 w v ws)
  have sp: "toLowerCase_char CHR '' '' = CHR '' ''" by code_simp
  from 3 show ?case by (simp add: toLowerCase_def sp)
qed (simp_all add: toLowerCase_def)

lemma toLowerCase_char_kept:
  "isLowerAZ c \<or> isWhiteSpace c \<Longrightarrow> toLowerCase_char c = c"
  by (auto simp: toLowerCase_char_def isLowerAZ_def isUpperAZ_def isWhiteSpace_def)

lemma toLowerCase_kept:
  "\<forall>c\<in>set w. isLowerAZ c \<or> isWhiteSpace c \<Longrightarrow> toLowerCase w = w"
  by (simp add: toLowerCase_def toLowerCase_char_kept map_idI)

lemma code_char_of: "n < 256 \<Longrightarrow> code (char_of n) = n"
  by (simp add: code_def)

lemma char_of_code: "char_of (code c) = c"
  by (simp add: code_def)

lemma toUpperCase_char_lower:
  "isLowerAZ c \<Longrightarrow> \<exists>u. toUpperCase_char c = [u] \<and> isUpperAZ u \<and> toLowerCase_char u = c"
proof -
  assume l: "isLowerAZ c"
  let ?u = "char_of (code c - 32) :: char"
  from l have r: "97 \<le> code c" "code c \<le> 122"
    by (simp_all add: isLowerAZ_def)
  then have "code c - 32 < 256" by arith
  then have cu: "code ?u = code c - 32" by (rule code_char_of)
  from l have 1: "toUpperCase_char c = [?u]" by (simp add: toUpperCase_char_def)
  from r have 2: "isUpperAZ ?u" unfolding isUpperAZ_def cu by arith
  from r have "code ?u + 32 = code c" unfolding cu by arith
  with 2 have 3: "toLowerCase_char ?u = c" by (simp add: toLowerCase_char_def char_of_code)
  from 1 2 3 show ?thesis by blast
qed

lemma toUpperCase_char_space:
  "isWhiteSpace c \<Longrightarrow> toUpperCase_char c = [c]"
  by (auto simp: toUpperCase_char_def isWhiteSpace_def isLowerAZ_def)

lemma capitalize_Nil: "capitalize [] = []"
  by (simp add: capitalize_def toUpperCase_def)

lemma capitalize_Cons: "capitalize (c # cs) = toUpperCase_char c @ cs"
  by (simp add: capitalize_def toUpperCase_def)

lemma toLowerCase_capitalize:
  assumes "\<forall>c\<in>set w. isLowerAZ c \<or> isWhiteSpace c"
  shows "toLowerCase (capitalize w) = w"
proof (cases w)
  case Nil
  then show ?thesis by (simp add: capitalize_Nil toLowerCase_def)
next
  case (Cons c cs)
  with assms have k: "isLowerAZ c \<or> isWhiteSpace c"
    and ks: "\<forall>c\<in>set cs. isLowerAZ c \<or> isWhiteSpace c" by auto
  from ks have cs: "toLowerCase cs = cs" by (rule toLowerCase_kept)
  from k have "toLowerCase (toUpperCase_char c) = [c]"
  proof
    assume "isLowerAZ c"
    then obtain u where "toUpperCase_char c = [u]" "toLowerCase_char u = c"
      using toUpperCase_char_lower by blast
    then show ?thesis by (simp add: toLowerCase_def)
  next
    assume w: "isWhiteSpace c"
    then show ?thesis
      by (simp add: toUpperCase_char_space toLowerCase_def toLowerCase_char_kept)
  qed
  with cs Cons show ?thesis
    by (simp add: capitalize_Cons toLowerCase_def)
qed

lemma space_isWhiteSpace: "isWhiteSpace CHR '' ''"
  by (simp add: isWhiteSpace_def code_def)

lemma normalizeIngredient_stripped:
  "normalizeIngredient x = join_space (map capitalize (split_space (stripped x)))"
  by (simp add: normalizeIngredient_def stripped_def)

lemma stripped_chars: "\<forall>c\<in>set (stripped x). isLowerAZ c \<or> isWhiteSpace c"
  using set_trim [of "strip (toLowerCase x)"] strip_chars [of _ "toLowerCase x"]
  by (auto simp: stripped_def)

lemma split_stripped_chars:
  "w \<in> set (split_space (stripped x)) \<Longrightarrow> \<forall>c\<in>set w. isLowerAZ c \<or> isWhiteSpace c"
  using split_space_chars [of w "stripped x"] stripped_chars [of x] by blast

lemma toLowerCase_normalizeIngredient:
  "toLowerCase (normalizeIngredient x) = stripped x"
proof -
  have "toLowerCase (normalizeIngredient x)
      = join_space (map (\<lambda>w. toLowerCase (capitalize w)) (split_space (stripped x)))"
    by (simp add: normalizeIngredient_stripped toLowerCase_join comp_def)
  also have "\<dots> = join_space (map (\<lambda>w. w) (split_space (stripped x)))"
    using split_stripped_chars [of _ x]
    by (intro arg_cong [where f = join_space] map_cong refl toLowerCase_capitalize)
  also have "\<dots> = stripped x" by (simp add: join_split)
  finally show ?thesis .
qed

lemma stripped_stripped: "stripped (normalizeIngredient x) = stripped x"
proof -
  have "strip (stripped x) = stripped x"
    using stripped_chars [of x] by (rule strip_id)
  moreover have "trim (stripped x) = stripped x"
    by (simp add: stripped_def trim_trim)
  ultimately show ?thesis
    by (simp add: stripped_def [of "normalizeIngredient x"] toLowerCase_normalizeIngredient)
qed

section \<open>The matcher and the pattern\<close>

lemma prev_of_snoc: "prev_of (b @ [c]) = Some c"
  by (simp add: prev_of_def)

lemma prevIsWord_prev_of: "prevIsWord (prev_of b) = lastIsWord b"
  by (simp add: prevIsWord_def prev_of_def lastIsWord_def)

lemma ci_equal_Nil: "ci_equal m [] \<longleftrightarrow> m = []"
  by (simp add: ci_equal_def)

lemma ci_equal_Cons:
  "ci_equal m (p # ps) \<longleftrightarrow> (\<exists>c cs. m = c # cs \<and> canonicalize c = canonicalize p \<and> ci_equal cs ps)"
  by (cases m) (auto simp: ci_equal_def)

lemma ci_equal_snoc:
  "ci_equal m (ps @ [p]) \<longleftrightarrow> (\<exists>cs c. m = cs @ [c] \<and> ci_equal cs ps \<and> canonicalize c = canonicalize p)"
proof (cases m rule: rev_cases)
  case Nil
  then show ?thesis by (simp add: ci_equal_def)
next
  case (snoc cs c)
  then show ?thesis by (auto simp: ci_equal_def)
qed

lemma match_literals:
  "match_here (map Lit t @ as) (prev_of b) rest \<longleftrightarrow>
     (\<exists>m v. rest = m @ v \<and> ci_equal m t \<and> match_here as (prev_of (b @ m)) v)"
proof (induction t arbitrary: b rest)
  case Nil
  show ?case by (simp add: ci_equal_Nil)
next
  case (Cons p ps)
  show ?case
  proof (cases rest)
    case Nil
    then show ?thesis by (simp add: ci_equal_Cons)
  next
    case (Cons c cs)
    have "match_here (map Lit (p # ps) @ as) (prev_of b) rest \<longleftrightarrow>
            canonicalize c = canonicalize p \<and> match_here (map Lit ps @ as) (prev_of (b @ [c])) cs"
      by (simp add: Cons prev_of_snoc)
    also have "\<dots> \<longleftrightarrow> canonicalize c = canonicalize p \<and>
            (\<exists>m v. cs = m @ v \<and> ci_equal m ps \<and> match_here as (prev_of ((b @ [c]) @ m)) v)"
      by (simp only: Cons.IH)
    also have "\<dots> \<longleftrightarrow> (\<exists>m v. rest = m @ v \<and> ci_equal m (p # ps) \<and> match_here as (prev_of (b @ m)) v)"
      (is "?L \<longleftrightarrow> ?R")
    proof
      assume ?L
      then obtain m v where "canonicalize c = canonicalize p" "cs = m @ v" "ci_equal m ps"
        "match_here as (prev_of (b @ c # m)) v" by auto
      with Cons have "rest = (c # m) @ v \<and> ci_equal (c # m) (p # ps)
          \<and> match_here as (prev_of (b @ (c # m))) v"
        by (simp add: ci_equal_Cons)
      then show ?R by blast
    next
      assume ?R
      then obtain m v where r: "rest = m @ v" and e: "ci_equal m (p # ps)"
        and h: "match_here as (prev_of (b @ m)) v" by blast
      from e obtain d ds where m: "m = d # ds" and d: "canonicalize d = canonicalize p"
        and ds: "ci_equal ds ps" unfolding ci_equal_Cons by blast
      from r m Cons have "d = c" "cs = ds @ v" by simp_all
      with d ds h m show ?L by auto
    qed
    finally show ?thesis .
  qed
qed

lemma match_tail:
  "match_here [Opt s, WordBoundary] (prev_of b) rest \<longleftrightarrow>
     (word_boundary b rest
      \<or> (\<exists>c v. rest = c # v \<and> canonicalize c = canonicalize s \<and> word_boundary (b @ [c]) v))"
proof (cases rest)
  case Nil
  then show ?thesis by (simp add: word_boundary_def prevIsWord_prev_of)
next
  case (Cons c cs)
  have 1: "prevIsWord (Some c) = lastIsWord (b @ [c])"
    using prevIsWord_prev_of [of "b @ [c]"] by (simp add: prev_of_snoc)
  show ?thesis
    by (auto simp: Cons word_boundary_def prevIsWord_prev_of 1)
qed

lemma search_from_iff:
  "search_from as (prev_of b) text \<longleftrightarrow>
     (\<exists>u v. text = u @ v \<and> match_here as (prev_of (b @ u)) v)"
proof (induction "text" arbitrary: b)
  case Nil
  show ?case by simp
next
  case (Cons c cs)
  have "search_from as (prev_of b) (c # cs) \<longleftrightarrow>
          match_here as (prev_of b) (c # cs) \<or> search_from as (prev_of (b @ [c])) cs"
    by (simp add: prev_of_snoc)
  also have "\<dots> \<longleftrightarrow> match_here as (prev_of b) (c # cs)
          \<or> (\<exists>u v. cs = u @ v \<and> match_here as (prev_of ((b @ [c]) @ u)) v)"
    by (simp only: Cons.IH)
  also have "\<dots> \<longleftrightarrow> (\<exists>u v. c # cs = u @ v \<and> match_here as (prev_of (b @ u)) v)"
    (is "?L \<longleftrightarrow> ?R")
  proof
    assume ?L
    then show ?R
    proof
      assume "match_here as (prev_of b) (c # cs)"
      then have "c # cs = [] @ (c # cs) \<and> match_here as (prev_of (b @ [])) (c # cs)" by simp
      then show ?R by blast
    next
      assume "\<exists>u v. cs = u @ v \<and> match_here as (prev_of ((b @ [c]) @ u)) v"
      then obtain u v where "cs = u @ v" "match_here as (prev_of ((b @ [c]) @ u)) v" by blast
      then have "c # cs = (c # u) @ v \<and> match_here as (prev_of (b @ (c # u))) v" by simp
      then show ?R by blast
    qed
  next
    assume ?R
    then obtain u v where e: "c # cs = u @ v" and h: "match_here as (prev_of (b @ u)) v" by blast
    show ?L
    proof (cases u)
      case Nil
      with e h show ?thesis by simp
    next
      case (Cons d ds)
      with e h have "cs = ds @ v \<and> match_here as (prev_of ((b @ [c]) @ ds)) v" by simp
      then show ?thesis by blast
    qed
  qed
  finally show ?case .
qed

lemma regex_test_iff:
  "regex_test (ingredient_regex t) text \<longleftrightarrow> pattern_matches t text"
proof -
  let ?tail = "[Opt (CHR ''s''), WordBoundary]"
  have p0: "prev_of [] = None" by (simp add: prev_of_def)
  have "regex_test (ingredient_regex t) text \<longleftrightarrow>
      (\<exists>u v. text = u @ v \<and> match_here (WordBoundary # map Lit t @ ?tail) (prev_of u) v)"
    using search_from_iff [of "ingredient_regex t" "[]" "text"]
    by (simp add: regex_test_def p0 ingredient_regex_def)
  also have "\<dots> \<longleftrightarrow>
      (\<exists>u v. text = u @ v \<and> word_boundary u v \<and> match_here (map Lit t @ ?tail) (prev_of u) v)"
    by (auto simp: word_boundary_def prevIsWord_prev_of)
  also have "\<dots> \<longleftrightarrow>
      (\<exists>u v. text = u @ v \<and> word_boundary u v \<and>
         (\<exists>m w. v = m @ w \<and> ci_equal m t \<and>
            (word_boundary (u @ m) w
             \<or> (\<exists>c x. w = c # x \<and> canonicalize c = canonicalize (CHR ''s'')
                    \<and> word_boundary ((u @ m) @ [c]) x))))"
    by (simp only: match_literals match_tail)
  also have "\<dots> \<longleftrightarrow> pattern_matches t text" (is "?L \<longleftrightarrow> ?R")
  proof
    assume ?L
    then obtain u v m w where t: "text = u @ v" and b: "word_boundary u v" and v: "v = m @ w"
      and e: "ci_equal m t"
      and d: "word_boundary (u @ m) w
             \<or> (\<exists>c x. w = c # x \<and> canonicalize c = canonicalize (CHR ''s'')
                    \<and> word_boundary ((u @ m) @ [c]) x)" by blast
    from d show ?R
    proof
      assume "word_boundary (u @ m) w"
      with t b v e show ?R unfolding pattern_matches_def by blast
    next
      assume "\<exists>c x. w = c # x \<and> canonicalize c = canonicalize (CHR ''s'')
                    \<and> word_boundary ((u @ m) @ [c]) x"
      then obtain c x where w: "w = c # x" and c: "canonicalize c = canonicalize (CHR ''s'')"
        and b2: "word_boundary ((u @ m) @ [c]) x" by blast
      from e c have "ci_equal (m @ [c]) (t @ ''s'')" by (simp add: ci_equal_def)
      moreover from t v w have "text = u @ (m @ [c]) @ x" by simp
      moreover from b v w have "word_boundary u ((m @ [c]) @ x)" by simp
      moreover from b2 have "word_boundary (u @ (m @ [c])) x" by simp
      ultimately show ?R unfolding pattern_matches_def by blast
    qed
  next
    assume ?R
    then obtain u m v where t: "text = u @ m @ v"
      and e: "ci_equal m t \<or> ci_equal m (t @ ''s'')"
      and b1: "word_boundary u (m @ v)" and b2: "word_boundary (u @ m) v"
      unfolding pattern_matches_def by blast
    from e show ?L
    proof
      assume "ci_equal m t"
      with t b1 b2 show ?L by blast
    next
      assume "ci_equal m (t @ ''s'')"
      then obtain cs c where m: "m = cs @ [c]" and cs: "ci_equal cs t"
        and c: "canonicalize c = canonicalize (CHR ''s'')"
        using ci_equal_snoc [of m t "CHR ''s''"] by auto
      from t m have "text = u @ (cs @ c # v)" by simp
      moreover from b1 m have "word_boundary u (cs @ c # v)" by simp
      moreover from b2 m have "word_boundary ((u @ cs) @ [c]) v" by simp
      ultimately show ?L using cs c by blast
    qed
  qed
  finally show ?thesis .
qed

lemma extract_loop_filter:
  "extract_loop dict text found
     = found @ filter (\<lambda>t. regex_test (ingredient_regex t) text) dict"
  by (induction dict arbitrary: found) simp_all

lemma extract_filter:
  "extractIngredientsFromText text = filter (\<lambda>t. pattern_matches t text) commonIngredients"
  by (simp add: extractIngredientsFromText_def extract_loop_filter regex_test_iff)

lemma distinct_commonIngredients: "distinct commonIngredients"
  by (simp add: commonIngredients_def)

lemma nextw_cw: "nextw (map cw rest) = nextIsWord rest"
  by (cases rest) (simp_all add: nextIsWord_def cw_def)

lemma match_here_abs:
  "match_here as prev rest = amatch (map abs_atom as) (prevIsWord prev) (map cw rest)"
proof (induction as prev rest rule: match_here.induct)
  case (2 as prev rest)
  then show ?case by (simp add: nextw_cw)
qed (simp_all add: cw_def prevIsWord_def)

lemma search_from_abs:
  "search_from as prev tx = asearch (map abs_atom as) (prevIsWord prev) (map cw tx)"
proof (induction tx arbitrary: prev)
  case Nil
  show ?case by (simp add: match_here_abs)
next
  case (Cons c cs)
  have p: "prevIsWord (Some c) = isWordChar c" by (simp add: prevIsWord_def)
  show ?case
    by (simp add: cw_def [of c] match_here_abs [of as prev "c # cs"] Cons.IH p)
qed

lemma extract_abs:
  "extractIngredientsFromText tx = aextract commonIngredients (map cw tx)"
proof -
  have "filter (\<lambda>t. regex_test (ingredient_regex t) tx) dict = aextract dict (map cw tx)" for dict
    by (induction dict) (simp_all add: regex_test_def search_from_abs prevIsWord_def)
  then show ?thesis
    by (simp add: extractIngredientsFromText_def extract_loop_filter)
qed

lemmas char_class_defs =
  cw_def canonicalize_def isWordChar_def isLowerAZ_def isUpperAZ_def isDigit_def code_def

section \<open>Removing duplicates\<close>

lemma set_keep_first: "set (keep_first xs) = set xs"
  by (induction xs) auto

lemma distinct_keep_first: "distinct (keep_first xs)"
  by (induction xs) (auto simp: distinct_removeAll)

lemma keep_first_distinct: "distinct xs \<Longrightarrow> keep_first xs = xs"
  by (induction xs) (auto simp: set_keep_first)

lemma filter_keep_first: "filter P (keep_first xs) = keep_first (filter P xs)"
proof (induction xs)
  case Nil
  show ?case by simp
next
  case (Cons x xs)
  have comm: "filter P (removeAll x ys) = removeAll x (filter P ys)" for ys
    by (induction ys) auto
  have drop: "\<not> P x \<Longrightarrow> filter P (removeAll x ys) = filter P ys" for ys
    by (induction ys) auto
  show ?case
  proof (cases "P x")
    case True
    then show ?thesis by (simp add: comm Cons.IH)
  next
    case False
    then show ?thesis by (simp add: drop Cons.IH)
  qed
qed

lemma foldl_set_add:
  "foldl set_add acc xs = acc @ keep_first (filter (\<lambda>x. x \<notin> set acc) xs)"
proof (induction xs arbitrary: acc)
  case Nil
  show ?case by simp
next
  case (Cons x xs)
  show ?case
  proof (cases "x \<in> set acc")
    case True
    then have "set_add acc x = acc" by (simp add: set_add_def)
    with True show ?thesis by (simp add: Cons.IH)
  next
    case False
    have "removeAll x (keep_first (filter (\<lambda>y. y \<notin> set acc) xs))
        = keep_first (filter (\<lambda>y. y \<notin> set (acc @ [x])) xs)"
    proof -
      have "removeAll x (keep_first (filter (\<lambda>y. y \<notin> set acc) xs))
          = filter (\<lambda>y. y \<noteq> x) (keep_first (filter (\<lambda>y. y \<notin> set acc) xs))"
        by (simp add: removeAll_filter_not_eq eq_commute)
      also have "\<dots> = keep_first (filter (\<lambda>y. y \<noteq> x) (filter (\<lambda>y. y \<notin> set acc) xs))"
        by (rule filter_keep_first)
      also have "filter (\<lambda>y. y \<noteq> x) (filter (\<lambda>y. y \<notin> set acc) xs)
          = filter (\<lambda>y. y \<notin> set (acc @ [x])) xs"
        by (auto intro: filter_cong)
      finally show ?thesis .
    qed
    moreover from False have "set_add acc x = acc @ [x]" by (simp add: set_add_def)
    ultimately show ?thesis using False by (simp add: Cons.IH)
  qed
qed

lemma new_Set_keep_first: "new_Set xs = keep_first xs"
  by (simp add: new_Set_def foldl_set_add)

lemma uniqueIngredients_distinct: "distinct (uniqueIngredients xs)"
  by (simp add: uniqueIngredients_def new_Set_keep_first distinct_keep_first)

lemma uniqueIngredients_length: "length (uniqueIngredients xs) \<le> 15"
  by (simp add: uniqueIngredients_def)

lemma uniqueIngredients_subset:
  "i \<in> set (uniqueIngredients xs) \<Longrightarrow> i \<in> set xs \<and> length i > 2"
proof -
  assume "i \<in> set (uniqueIngredients xs)"
  then have "i \<in> set (filter (\<lambda>ingredient. length ingredient > 2) (new_Set xs))"
    unfolding uniqueIngredients_def by (rule in_set_takeD)
  then show ?thesis by (simp add: new_Set_keep_first set_keep_first)
qed

lemma uniqueIngredients_all:
  "distinct xs \<Longrightarrow> \<forall>i\<in>set xs. length i > 2 \<Longrightarrow> uniqueIngredients xs = take 15 xs"
  by (simp add: uniqueIngredients_def new_Set_keep_first keep_first_distinct)

section \<open>The handler on well-formed answers\<close>

lemma filter_labels_skip:
  "\<not> scoreAbove l \<Longrightarrow> filter_labels (before @ l # after) = filter_labels (before @ after)"
  by (induction before) (simp_all split: option.split)

lemma filter_labels_total:
  "\<forall>l\<in>set ls. description l \<noteq> None \<Longrightarrow>
     \<exists>kept. filter_labels ls = Inr kept \<and> set kept \<subseteq> set ls"
proof (induction ls)
  case Nil
  show ?case by simp
next
  case (Cons l ls)
  then obtain kept where k: "filter_labels ls = Inr kept" "set kept \<subseteq> set ls" by auto
  from Cons.prems obtain d where d: "description l = Some d" by auto
  show ?case
  proof (cases "scoreAbove l")
    case True
    with k d show ?thesis by auto
  next
    case False
    with k show ?thesis by auto
  qed
qed

lemma map_normalize_total:
  "\<forall>l\<in>set ls. description l \<noteq> None \<Longrightarrow>
     \<exists>ns. map_normalize ls = Inr ns \<and> set ns \<subseteq> range normalizeIngredient"
proof (induction ls)
  case Nil
  show ?case by simp
next
  case (Cons l ls)
  then obtain ns where k: "map_normalize ls = Inr ns" "set ns \<subseteq> range normalizeIngredient" by auto
  from Cons.prems obtain d where d: "description l = Some d" by auto
  with k show ?case by auto
qed

lemma foodLabels_total:
  assumes "\<forall>l\<in>set ls. description l \<noteq> None"
  shows "\<exists>ns. foodLabels ls = Inr ns \<and> set ns \<subseteq> range normalizeIngredient"
proof -
  from filter_labels_total [OF assms] obtain kept
    where k: "filter_labels ls = Inr kept" "set kept \<subseteq> set ls" by blast
  with assms have "\<forall>l\<in>set kept. description l \<noteq> None" by blast
  from map_normalize_total [OF this] k(1) show ?thesis by (simp add: foodLabels_def)
qed

lemma collectIngredients_total:
  assumes "wellformed response"
  shows "\<exists>xs. collectIngredients response = Inr xs \<and> set xs \<subseteq> range normalizeIngredient"
proof -
  have l: "\<exists>xs. (case labelAnnotations response of None \<Rightarrow> Inr [] | Some labels \<Rightarrow> foodLabels labels)
             = Inr xs \<and> set xs \<subseteq> range normalizeIngredient"
  proof (cases "labelAnnotations response")
    case None
    then show ?thesis by simp
  next
    case (Some labels)
    with assms have "\<forall>l\<in>set labels. description l \<noteq> None"
      by (simp add: wellformed_def list_all_iff)
    from foodLabels_total [OF this] Some show ?thesis by simp
  qed
  then obtain xs where xs: "(case labelAnnotations response of None \<Rightarrow> Inr []
      | Some labels \<Rightarrow> foodLabels labels) = Inr xs" "set xs \<subseteq> range normalizeIngredient" by blast
  show ?thesis
  proof (cases "textAnnotations response")
    case None
    with xs show ?thesis by (simp add: collectIngredients_def)
  next
    case (Some texts)
    show ?thesis
    proof (cases texts)
      case Nil
      with Some xs show ?thesis by (simp add: collectIngredients_def)
    next
      case (Cons first others)
      with Some assms obtain d where d: "description first = Some d"
        by (auto simp: wellformed_def)
      with Some Cons xs show ?thesis by (auto simp: collectIngredients_def)
    qed
  qed
qed

lemma filter_labels_label_of:
  "filter_labels (map label_of labels)
     = Inr (map label_of (filter (\<lambda>(d, s). s > 0.5 \<and> isFoodRelated d) labels))"
proof (induction labels)
  case Nil
  show ?case by simp
next
  case (Cons p ps)
  obtain d s where p: "p = (d, s)" by (cases p)
  have l: "label_of p = \<lparr>description = Some d, score = Some s\<rparr>"
    by (simp add: p label_of_def)
  have sc: "scoreAbove (label_of p) = (s > 0.5)"
    by (simp add: l scoreAbove_def)
  have de: "description (label_of p) = Some d"
    by (simp add: l)
  show ?case
  proof (cases "s > 0.5")
    case True
    then have "filter_labels (label_of p # map label_of ps)
        = Inr (if isFoodRelated d
               then label_of p # map label_of (filter (\<lambda>(d, s). s > 0.5 \<and> isFoodRelated d) ps)
               else map label_of (filter (\<lambda>(d, s). s > 0.5 \<and> isFoodRelated d) ps))"
      using sc de Cons.IH by (simp del: filter_labels.simps add: filter_labels.simps(2) [of "label_of p"])
    with True p show ?thesis by simp
  next
    case False
    then have "filter_labels (label_of p # map label_of ps)
        = Inr (map label_of (filter (\<lambda>(d, s). s > 0.5 \<and> isFoodRelated d) ps))"
      using sc Cons.IH by simp
    with False p show ?thesis by simp
  qed
qed

lemma map_normalize_label_of:
  "map_normalize (map label_of labels) = Inr (map (\<lambda>(d, s). normalizeIngredient d) labels)"
  by (induction labels) (auto simp: label_of_def)

lemma foodLabels_label_of: "foodLabels (map label_of labels) = Inr (spec_labels labels)"
  by (simp add: foodLabels_def filter_labels_label_of map_normalize_label_of spec_labels_def)

lemma collectIngredients_response_of:
  "collectIngredients (response_of labels rawText)
     = Inr (spec_labels labels @ spec_mined rawText)"
  by (cases rawText)
     (simp_all add: collectIngredients_def response_of_def foodLabels_label_of spec_mined_def
        text_of_def)

lemma analyzeImage_response_of:
  "analyzeImage (response_of labels rawText) = Inr (spec_extractIngredients labels rawText)"
proof -
  have "filter (\<lambda>i. 2 < length i) xs = filter (\<lambda>i. \<not> length i \<le> 2) xs" for xs :: "string list"
    by (rule filter_cong) auto
  then show ?thesis
    by (simp add: analyzeImage_def collectIngredients_response_of uniqueIngredients_def
        spec_extractIngredients_def new_Set_keep_first)
qed

lemma normalizeIngredient_hd:
  assumes "normalizeIngredient x \<noteq> []"
  shows "isUpperAZ (hd (normalizeIngredient x))"
proof -
  let ?s = "stripped x"
  have ne: "?s \<noteq> []"
  proof
    assume "?s = []"
    then have "normalizeIngredient x = []"
      by (simp add: normalizeIngredient_stripped capitalize_Nil)
    with assms show False by simp
  qed
  then obtain c cs where s: "?s = c # cs" by (cases ?s) auto
  have "trim (strip (toLowerCase x)) \<noteq> []" using ne by (simp add: stripped_def)
  from trim_ends [OF this] s have nw: "\<not> isWhiteSpace c" by (simp add: stripped_def)
  with stripped_chars [of x] s have low: "isLowerAZ c" by auto
  from nw have nsp: "c \<noteq> CHR '' ''" using space_isWhiteSpace by auto
  obtain w ws where sp: "split_space cs = w # ws"
    using split_space_not_Nil [of cs] by (cases "split_space cs") auto
  from low obtain u where u: "toUpperCase_char c = [u]" "isUpperAZ u"
    using toUpperCase_char_lower by blast
  have "normalizeIngredient x = join_space ((u # w) # map capitalize ws)"
    by (simp add: normalizeIngredient_stripped s nsp sp capitalize_Cons u)
  then have "hd (normalizeIngredient x) = u" by (cases ws) simp_all
  with u show ?thesis by simp
qed

lemma upper_not_space: "isUpperAZ c \<Longrightarrow> \<not> isWhiteSpace c"
  by (auto simp: isUpperAZ_def isWhiteSpace_def)

section \<open>Values at concrete inputs\<close>

lemma commonIngredients_chars:
  "list_all (list_all (\<lambda>c. isLowerAZ c \<or> c = CHR '' '')) commonIngredients"
  by code_simp

lemma fr_vegetable: "isFoodRelated ''Vegetable''" by code_simp
lemma fr_car: "isFoodRelated ''Car''" by code_simp
lemma fr_tomato: "isFoodRelated ''Tomato''" by code_simp
lemma fr_bicycle: "\<not> isFoodRelated ''Bicycle''" by code_simp
lemma fr_empty: "isFoodRelated []" by code_simp
lemma n_vegetable: "normalizeIngredient ''Vegetable'' = ''Vegetable''" by code_simp
lemma n_car: "normalizeIngredient ''Car'' = ''Car''" by code_simp
lemma n_tomato: "normalizeIngredient ''Tomato'' = ''Tomato''" by code_simp
lemma n_eggs: "normalizeIngredient ''eggs'' = ''Eggs''" by code_simp
lemma n_basil: "normalizeIngredient ''basil'' = ''Basil''" by code_simp
lemma n_empty: "normalizeIngredient [] = []" by code_simp

lemma scenario_lower:
  "toLowerCase ''recipe calls for 2 eggs and fresh basil leaves''
     = ''recipe calls for 2 eggs and fresh basil leaves''"
  by code_simp

lemma scenario_mined:
  "extractIngredientsFromText ''recipe calls for 2 eggs and fresh basil leaves''
     = [''eggs'', ''basil'']"
  by (simp add: extract_abs commonIngredients_def ingredient_regex_def char_class_defs)

lemma scenario_collected:
  "collectIngredients scenario = Inr [''Vegetable'', ''Car'', ''Eggs'', ''Basil'']"
  by (simp add: scenario_def collectIngredients_def foodLabels_def scoreAbove_def
      fr_vegetable fr_car n_vegetable n_car scenario_lower scenario_mined n_eggs n_basil)

lemma scenario_value:
  "analyzeImage scenario = Inr [''Vegetable'', ''Car'', ''Eggs'', ''Basil'']"
  by (simp add: analyzeImage_def scenario_collected uniqueIngredients_def new_Set_def
      set_add_def)

lemma scenario_wellformed: "wellformed scenario"
  by (simp add: wellformed_def scenario_def)

lemma mined_onions: "extractIngredientsFromText ''Onions, GARLIC'' = [''onion'', ''garlic'']"
  by (simp add: extract_abs commonIngredients_def ingredient_regex_def char_class_defs)

lemma many_food: "list_all isFoodRelated many_names"
  by code_simp

lemma many_normalized: "map normalizeIngredient many_names = many_names"
  by code_simp

lemma many_spec_labels: "spec_labels many_labels = many_names"
proof -
  have "filter (\<lambda>(d, s). s > 0.5 \<and> isFoodRelated d) many_labels
      = map (\<lambda>d. (d, 0.9)) (filter isFoodRelated many_names)"
    by (simp add: many_labels_def filter_map comp_def)
  also have "filter isFoodRelated many_names = many_names"
    using many_food by (simp add: list_all_iff)
  finally show ?thesis
    by (simp add: spec_labels_def comp_def many_normalized)
qed

lemma short_lower: "toLowerCase ''Eggs, BASIL'' = ''eggs, basil''"
  by code_simp

lemma short_mined: "extractIngredientsFromText ''eggs, basil'' = [''eggs'', ''basil'']"
  by (simp add: extract_abs commonIngredients_def ingredient_regex_def char_class_defs)

lemma short_spec_mined: "spec_mined (Some ''Eggs, BASIL'') = [''Eggs'', ''Basil'']"
  by (simp add: spec_mined_def short_lower short_mined n_eggs n_basil)

lemma tomato_low:
  "analyzeImage \<lparr>labelAnnotations = Some [\<lparr>description = Some ''Tomato'', score = Some 0.4\<rparr>],
                  textAnnotations = None\<rparr> = Inr []"
  by (simp add: analyzeImage_def collectIngredients_def foodLabels_def scoreAbove_def
      uniqueIngredients_def new_Set_def)

lemma empty_answers:
  "analyzeImage \<lparr>labelAnnotations = None, textAnnotations = None\<rparr> = Inr []"
  "analyzeImage \<lparr>labelAnnotations = Some [], textAnnotations = Some []\<rparr> = Inr []"
  by (simp_all add: analyzeImage_def collectIngredients_def foodLabels_def
      uniqueIngredients_def new_Set_def)

lemma filtered_out_answer:
  "analyzeImage
     \<lparr>labelAnnotations = Some [\<lparr>description = Some ''Bicycle'', score = Some 0.9\<rparr>],
      textAnnotations = None\<rparr> = Inr []"
  by (simp add: analyzeImage_def collectIngredients_def foodLabels_def scoreAbove_def
      uniqueIngredients_def new_Set_def fr_bicycle)

section \<open>The claims\<close>

text \<open>
  C1, as amended: for the end-to-end input (the labels \<open>Vegetable\<close> with score 0.8 and
  \<open>Car\<close> with score 0.95, and the text \<open>recipe calls for 2 eggs and fresh basil
  leaves\<close>) the pipeline returns exactly \<open>Vegetable\<close>, \<open>Car\<close>, \<open>Eggs\<close>, \<open>Basil\<close> in
  this order: \<open>Car\<close> is classified as food related, its lowercase form occurring in
  the keyword \<open>carrot\<close>, and the mined dictionary term is \<open>eggs\<close>, normalized to
  \<open>Eggs\<close>.
\<close>

theorem scenario_output:
  "analyzeImage scenario = Inr [''Vegetable'', ''Car'', ''Eggs'', ''Basil'']
   \<and> isFoodRelated ''Car''
   \<and> extractIngredientsFromText
        (toLowerCase ''recipe calls for 2 eggs and fresh basil leaves'') = [''eggs'', ''basil'']
   \<and> normalizeIngredient ''eggs'' = ''Eggs''"
  by (simp add: scenario_value fr_car scenario_lower scenario_mined n_eggs)

theorem scenario_output_witness:
  "collectIngredients scenario = Inr [''Vegetable'', ''Car'', ''Eggs'', ''Basil'']
   \<and> uniqueIngredients [''Vegetable'', ''Car'', ''Eggs'', ''Basil'']
       = [''Vegetable'', ''Car'', ''Eggs'', ''Basil'']"
  using scenario_output scenario_collected by (simp add: analyzeImage_def)

text \<open>The answer for the end-to-end input is not \<open>Vegetable\<close>, \<open>Egg\<close>, \<open>Basil\<close>.\<close>

theorem scenario_counterexample:
  "analyzeImage scenario \<noteq> Inr [''Vegetable'', ''Egg'', ''Basil'']"
  by (simp add: scenario_value)

text \<open>
  C2: a label whose score is at most 0.5 contributes nothing, whatever its description:
  the answer is the same with the label taken out of the list. The single label
  \<open>Tomato\<close> with score 0.4 and no text gives the empty list.
\<close>

theorem low_score_label_excluded:
  assumes "score l = Some s" and "s \<le> 0.5"
  shows "analyzeImage (response\<lparr>labelAnnotations := Some (before @ l # after)\<rparr>)
           = analyzeImage (response\<lparr>labelAnnotations := Some (before @ after)\<rparr>)
         \<and> analyzeImage
             \<lparr>labelAnnotations = Some [\<lparr>description = Some ''Tomato'', score = Some 0.4\<rparr>],
              textAnnotations = None\<rparr> = Inr []"
proof -
  from assms have "\<not> scoreAbove l" by (simp add: scoreAbove_def)
  then have "filter_labels (before @ l # after) = filter_labels (before @ after)"
    by (rule filter_labels_skip)
  then have "foodLabels (before @ l # after) = foodLabels (before @ after)"
    by (simp add: foodLabels_def)
  then have "collectIngredients (response\<lparr>labelAnnotations := Some (before @ l # after)\<rparr>)
      = collectIngredients (response\<lparr>labelAnnotations := Some (before @ after)\<rparr>)"
    by (simp add: collectIngredients_def cong: sum.case_cong)
  then have "analyzeImage (response\<lparr>labelAnnotations := Some (before @ l # after)\<rparr>)
      = analyzeImage (response\<lparr>labelAnnotations := Some (before @ after)\<rparr>)"
    by (simp add: analyzeImage_def)
  then show ?thesis using tomato_low by (rule conjI)
qed

theorem low_score_label_excluded_witness:
  "score \<lparr>description = Some ''Tomato'', score = Some 0.5\<rparr> = Some 0.5
   \<and> (0.5::real) \<le> 0.5
   \<and> analyzeImage
        \<lparr>labelAnnotations = Some [\<lparr>description = Some ''Vegetable'', score = Some 0.8\<rparr>,
                                  \<lparr>description = Some ''Tomato'', score = Some 0.5\<rparr>],
         textAnnotations = None\<rparr> = Inr [''Vegetable'']"
proof -
  have v: "analyzeImage
     \<lparr>labelAnnotations = Some [\<lparr>description = Some ''Vegetable'', score = Some 0.8\<rparr>],
      textAnnotations = None\<rparr> = Inr [''Vegetable'']"
    by (simp add: analyzeImage_def collectIngredients_def foodLabels_def scoreAbove_def
        uniqueIngredients_def new_Set_def set_add_def fr_vegetable n_vegetable)
  have s: "score \<lparr>description = Some ''Tomato'', score = Some 0.5\<rparr> = Some 0.5" by simp
  have le: "(0.5::real) \<le> 0.5" by simp
  from low_score_label_excluded
      [where l = "\<lparr>description = Some ''Tomato'', score = Some 0.5\<rparr>" and s = "0.5"
         and response = "\<lparr>labelAnnotations = None, textAnnotations = None\<rparr>"
         and before = "[\<lparr>description = Some ''Vegetable'', score = Some 0.8\<rparr>]"
         and after = "[]", OF s le] v
  show ?thesis by simp
qed

text \<open>
  C3: \<open>isFoodRelated\<close> holds of a label exactly when some keyword of the relatedness
  lexicon occurs in the lowercased label, or the lowercased label occurs in it. The
  search through the lexicon stops at the first such keyword and gives false when
  there is none.
\<close>

theorem isFoodRelated_iff:
  "isFoodRelated label \<longleftrightarrow>
     (\<exists>keyword\<in>set foodKeywords.
        sublist keyword (toLowerCase label) \<or> sublist (toLowerCase label) keyword)"
  by (simp add: isFoodRelated_def Let_def array_some_iff str_includes_sublist)

theorem isFoodRelated_iff_witness:
  "isFoodRelated ''Scrambled Eggs'' \<and>
     (\<exists>keyword\<in>set foodKeywords.
        sublist keyword (toLowerCase ''Scrambled Eggs'')
        \<or> sublist (toLowerCase ''Scrambled Eggs'') keyword) \<and>
   \<not> isFoodRelated ''Bicycle'' \<and>
   \<not> (\<exists>keyword\<in>set foodKeywords.
        sublist keyword (toLowerCase ''Bicycle'') \<or> sublist (toLowerCase ''Bicycle'') keyword)"
proof -
  have 1: "isFoodRelated ''Scrambled Eggs''" by code_simp
  have 2: "\<not> isFoodRelated ''Bicycle''" by code_simp
  from 1 2 isFoodRelated_iff [of "''Scrambled Eggs''"] isFoodRelated_iff [of "''Bicycle''"]
  show ?thesis by blast
qed

text \<open>
  C4: \<open>extractIngredientsFromText\<close> returns exactly the terms of the mining dictionary
  whose pattern (word boundary, the term up to case, at most one more \<open>s\<close>, word
  boundary) matches somewhere in the text. It returns the terms as the dictionary
  stores them, in the order of the dictionary, and none of them twice.
\<close>

theorem extractIngredientsFromText_exact:
  "extractIngredientsFromText txt = filter (\<lambda>term. pattern_matches term txt) commonIngredients
   \<and> distinct (extractIngredientsFromText txt)"
  by (simp add: extract_filter distinct_commonIngredients)

theorem extractIngredientsFromText_exact_witness:
  "filter (\<lambda>term. pattern_matches term ''Onions, GARLIC'') commonIngredients = [''onion'', ''garlic'']
   \<and> distinct (extractIngredientsFromText ''Onions, GARLIC'')"
proof -
  from extractIngredientsFromText_exact [of "''Onions, GARLIC''"]
  have f: "extractIngredientsFromText ''Onions, GARLIC''
      = filter (\<lambda>term. pattern_matches term ''Onions, GARLIC'') commonIngredients"
    and d: "distinct (extractIngredientsFromText ''Onions, GARLIC'')" by blast+
  from f mined_onions
  have "filter (\<lambda>term. pattern_matches term ''Onions, GARLIC'') commonIngredients
      = [''onion'', ''garlic'']" by (rule trans [OF sym])
  then show ?thesis using d by (rule conjI)
qed

text \<open>
  C5: the stripping step keeps every character of the class \<open>\s\<close>, not the space alone,
  while only the space separates words. For the input \<open>a\<close>, tab, \<open>b\<close> the output is
  \<open>A\<close>, tab, \<open>b\<close>: it has a character that is neither a Latin letter nor the space, and
  the tab was not removed although it is neither a letter nor a space. For the input
  \<open>green\<close>, line feed, \<open>beans\<close> the line feed stays as well, and the second word keeps its
  small first letter.
\<close>

theorem normalizeIngredient_keeps_tab:
  "normalizeIngredient [CHR ''a'', CHR 0x09, CHR ''b''] = [CHR ''A'', CHR 0x09, CHR ''b'']
   \<and> \<not> isLowerAZ (CHR 0x09) \<and> \<not> isUpperAZ (CHR 0x09) \<and> CHR 0x09 \<noteq> CHR '' ''
   \<and> normalizeIngredient (''green'' @ CHR 0x0A # ''beans'') = ''Green'' @ CHR 0x0A # ''beans''"
  by code_simp

text \<open>C6: \<open>normalizeIngredient\<close> is idempotent.\<close>

theorem normalizeIngredient_idempotent:
  "normalizeIngredient (normalizeIngredient x) = normalizeIngredient x"
proof -
  have "normalizeIngredient (normalizeIngredient x)
      = join_space (map capitalize (split_space (stripped (normalizeIngredient x))))"
    by (rule normalizeIngredient_stripped)
  also have "\<dots> = join_space (map capitalize (split_space (stripped x)))"
    by (simp only: stripped_stripped)
  also have "\<dots> = normalizeIngredient x"
    by (rule normalizeIngredient_stripped [symmetric])
  finally show ?thesis .
qed

theorem normalizeIngredient_idempotent_witness:
  "normalizeIngredient ''  extra-virgin  OLIVE oil 2'' = ''Extravirgin  Olive Oil''
   \<and> normalizeIngredient ''Extravirgin  Olive Oil'' = ''Extravirgin  Olive Oil''"
proof -
  have 1: "normalizeIngredient ''  extra-virgin  OLIVE oil 2'' = ''Extravirgin  Olive Oil''"
    by code_simp
  from normalizeIngredient_idempotent [of "''  extra-virgin  OLIVE oil 2''"] 1
  show ?thesis by simp
qed

text \<open>
  C7: on every well-formed input the handler returns a list that has no duplicates, no
  empty entry and no entry of white space only, no entry of length 2 or less, and at
  most 15 entries.
\<close>

theorem output_invariant:
  assumes "wellformed response"
  shows "\<exists>out. analyzeImage response = Inr out \<and> distinct out
           \<and> (\<forall>i\<in>set out. i \<noteq> [] \<and> (\<exists>c\<in>set i. \<not> isWhiteSpace c) \<and> 2 < length i)
           \<and> length out \<le> 15"
proof -
  from collectIngredients_total [OF assms] obtain xs
    where xs: "collectIngredients response = Inr xs" "set xs \<subseteq> range normalizeIngredient"
    by blast
  let ?out = "uniqueIngredients xs"
  have a: "analyzeImage response = Inr ?out" by (simp add: analyzeImage_def xs)
  have "i \<noteq> [] \<and> (\<exists>c\<in>set i. \<not> isWhiteSpace c) \<and> 2 < length i" if "i \<in> set ?out" for i
  proof -
    from uniqueIngredients_subset [OF that] have i: "i \<in> set xs" and l: "2 < length i" by simp_all
    from l have ne: "i \<noteq> []" by auto
    from i xs obtain x where x: "i = normalizeIngredient x" by blast
    with ne have "isUpperAZ (hd i)" using normalizeIngredient_hd by simp
    then have "\<not> isWhiteSpace (hd i)" by (rule upper_not_space)
    with ne have "\<exists>c\<in>set i. \<not> isWhiteSpace c" using hd_in_set by blast
    with ne l show ?thesis by blast
  qed
  with a uniqueIngredients_distinct [of xs] uniqueIngredients_length [of xs]
  show ?thesis by blast
qed

theorem output_invariant_witness:
  "wellformed scenario \<and>
   (\<exists>out. analyzeImage scenario = Inr out \<and> distinct out
      \<and> list_all (\<lambda>i. i \<noteq> [] \<and> (\<exists>c\<in>set i. \<not> isWhiteSpace c) \<and> 2 < length i) out
      \<and> length out \<le> 15)"
  using output_invariant [OF scenario_wellformed] scenario_wellformed
  unfolding list_all_iff by blast

text \<open>
  C8: the answer is made of the normalized food labels in the order of the input,
  then the normalized mined terms in the order of the dictionary, without duplicates
  (first occurrences stay), without entries of length 2 or less, cut to the first 15.
  With 30 distinct entries that all are longer than 2, the answer is the first 15 of
  them.
\<close>

theorem pipeline_order:
  "analyzeImage (response_of labels rawText) = Inr (spec_extractIngredients labels rawText)
   \<and> (distinct (spec_labels labels @ spec_mined rawText)
        \<and> (\<forall>i\<in>set (spec_labels labels @ spec_mined rawText). 2 < length i)
        \<and> length (spec_labels labels @ spec_mined rawText) = 30
      \<longrightarrow> analyzeImage (response_of labels rawText)
            = Inr (take 15 (spec_labels labels @ spec_mined rawText))
          \<and> length (take 15 (spec_labels labels @ spec_mined rawText)) = 15)"
proof -
  define every where "every = spec_labels labels @ spec_mined rawText"
  have a: "analyzeImage (response_of labels rawText) = Inr (uniqueIngredients every)"
    by (simp add: analyzeImage_def collectIngredients_response_of every_def)
  have b: "analyzeImage (response_of labels rawText) = Inr (take 15 every)
      \<and> length (take 15 every) = 15"
    if d: "distinct every" and l: "\<forall>i\<in>set every. 2 < length i" and n: "length every = 30"
  proof -
    from d l have "uniqueIngredients every = take 15 every" by (rule uniqueIngredients_all)
    with a have "analyzeImage (response_of labels rawText) = Inr (take 15 every)" by simp
    moreover from n have "length (take 15 every) = 15" by simp
    ultimately show ?thesis ..
  qed
  from analyzeImage_response_of [of labels rawText] b show ?thesis
    unfolding every_def by blast
qed

theorem pipeline_order_witness:
  "distinct (spec_labels many_labels @ spec_mined (Some ''Eggs, BASIL''))
   \<and> list_all (\<lambda>i. 2 < length i) (spec_labels many_labels @ spec_mined (Some ''Eggs, BASIL''))
   \<and> length (spec_labels many_labels @ spec_mined (Some ''Eggs, BASIL'')) = 30
   \<and> analyzeImage (response_of many_labels (Some ''Eggs, BASIL''))
       = Inr [''Food'', ''Ingredient'', ''Vegetable'', ''Fruit'', ''Meat'', ''Dairy'', ''Grain'',
              ''Spice'', ''Herb'', ''Sauce'', ''Oil'', ''Vinegar'', ''Cheese'', ''Milk'', ''Egg'']"
proof -
  let ?all = "spec_labels many_labels @ spec_mined (Some ''Eggs, BASIL'')"
  have v: "?all = many_names @ [''Eggs'', ''Basil'']"
    by (simp add: many_spec_labels short_spec_mined)
  have d: "distinct ?all" unfolding v by (simp add: many_names_def)
  have l: "\<forall>i\<in>set ?all. 2 < length i" unfolding v by (simp add: many_names_def)
  have n: "length ?all = 30" unfolding v by (simp add: many_names_def)
  have t: "take 15 ?all = [''Food'', ''Ingredient'', ''Vegetable'', ''Fruit'', ''Meat'', ''Dairy'', ''Grain'',
              ''Spice'', ''Herb'', ''Sauce'', ''Oil'', ''Vinegar'', ''Cheese'', ''Milk'', ''Egg'']"
    unfolding v by (simp add: many_names_def)
  from pipeline_order [of many_labels "Some ''Eggs, BASIL''"] d l n
  have "analyzeImage (response_of many_labels (Some ''Eggs, BASIL'')) = Inr (take 15 ?all)"
    by blast
  with d l n t show ?thesis unfolding list_all_iff by simp
qed

text \<open>
  C9: the aggregation raises no error on a well-formed input, whatever the labels and
  the text, and returns a list. Without text annotations the mining step is left out,
  and an input of which nothing is left gives the empty list.
\<close>

theorem aggregation_total:
  "(wellformed response \<longrightarrow> (\<exists>ingredients. analyzeImage response = Inr ingredients))
   \<and> (textAnnotations response = None \<longrightarrow>
        collectIngredients response
          = (case labelAnnotations response of
               None \<Rightarrow> Inr []
             | Some labels \<Rightarrow> foodLabels labels))
   \<and> analyzeImage \<lparr>labelAnnotations = None, textAnnotations = None\<rparr> = Inr []
   \<and> analyzeImage \<lparr>labelAnnotations = Some [], textAnnotations = Some []\<rparr> = Inr []
   \<and> analyzeImage
        \<lparr>labelAnnotations = Some [\<lparr>description = Some ''Bicycle'', score = Some 0.9\<rparr>],
         textAnnotations = None\<rparr> = Inr []"
proof -
  have 1: "\<exists>ingredients. analyzeImage response = Inr ingredients" if "wellformed response"
    using collectIngredients_total [OF that] by (auto simp: analyzeImage_def)
  have 2: "collectIngredients response
          = (case labelAnnotations response of
               None \<Rightarrow> Inr []
             | Some labels \<Rightarrow> foodLabels labels)" if "textAnnotations response = None"
    using that by (simp add: collectIngredients_def split: sum.split)
  from 1 2 empty_answers filtered_out_answer show ?thesis by blast
qed

theorem aggregation_total_witness:
  "wellformed (response_of [(''Tomato'', 0.9)] None)
   \<and> textAnnotations (response_of [(''Tomato'', 0.9)] None) = None
   \<and> collectIngredients (response_of [(''Tomato'', 0.9)] None) = Inr [''Tomato'']
   \<and> (\<exists>ingredients. analyzeImage (response_of [(''Tomato'', 0.9)] None) = Inr ingredients)"
proof -
  let ?r = "response_of [(''Tomato'', 0.9)] None"
  have w: "wellformed ?r" by (simp add: wellformed_def response_of_def label_of_def)
  have t: "textAnnotations ?r = None" by (simp add: response_of_def)
  have f: "foodLabels [label_of (''Tomato'', 0.9)] = Inr [''Tomato'']"
    by (simp add: foodLabels_def label_of_def scoreAbove_def fr_tomato n_tomato)
  from aggregation_total [of ?r] w t
  have "\<exists>ingredients. analyzeImage ?r = Inr ingredients"
    and "collectIngredients ?r
          = (case labelAnnotations ?r of None \<Rightarrow> Inr [] | Some labels \<Rightarrow> foodLabels labels)"
    by blast+
  with w t f show ?thesis by (simp add: response_of_def)
qed

text \<open>
  C10: \<open>isFoodRelated\<close> holds of the empty string, and of every label whose lowercased
  form occurs in a keyword. A label with the empty description and a score above 0.5
  is therefore pushed to \<open>ingredients\<close> as the empty string, stays in the set, and
  is kept out of the answer by the filter on the length alone.
\<close>

theorem empty_label_food_related:
  "isFoodRelated []
   \<and> (keyword \<in> set foodKeywords \<and> sublist (toLowerCase label) keyword \<longrightarrow> isFoodRelated label)
   \<and> (0.5 < s \<longrightarrow>
        collectIngredients
          \<lparr>labelAnnotations = Some [\<lparr>description = Some [], score = Some s\<rparr>],
           textAnnotations = None\<rparr> = Inr ['''']
        \<and> new_Set [''''] = ['''']
        \<and> filter (\<lambda>ingredient. length ingredient > 2) [''''] = []
        \<and> analyzeImage
            \<lparr>labelAnnotations = Some [\<lparr>description = Some [], score = Some s\<rparr>],
             textAnnotations = None\<rparr> = Inr [])"
proof -
  have 1: "isFoodRelated label" if "keyword \<in> set foodKeywords"
    and "sublist (toLowerCase label) keyword"
    using that unfolding isFoodRelated_def Let_def array_some_iff str_includes_sublist
    by blast
  have c: "collectIngredients
          \<lparr>labelAnnotations = Some [\<lparr>description = Some [], score = Some s\<rparr>],
           textAnnotations = None\<rparr> = Inr ['''']" if "0.5 < s"
    using that
    by (simp add: collectIngredients_def foodLabels_def scoreAbove_def fr_empty n_empty)
  have n: "new_Set [''''] = ['''']" by (simp add: new_Set_def set_add_def)
  have "analyzeImage
            \<lparr>labelAnnotations = Some [\<lparr>description = Some [], score = Some s\<rparr>],
             textAnnotations = None\<rparr> = Inr []" if "0.5 < s"
    by (simp add: analyzeImage_def c [OF that] uniqueIngredients_def n)
  with 1 c n fr_empty show ?thesis by simp
qed

theorem empty_label_food_related_witness:
  "isFoodRelated [] \<and> ''carrot'' \<in> set foodKeywords
   \<and> sublist (toLowerCase ''Car'') ''carrot'' \<and> isFoodRelated ''Car''
   \<and> (0.5::real) < 0.9
   \<and> collectIngredients
        \<lparr>labelAnnotations = Some [\<lparr>description = Some [], score = Some 0.9\<rparr>],
         textAnnotations = None\<rparr> = Inr ['''']
   \<and> analyzeImage
        \<lparr>labelAnnotations = Some [\<lparr>description = Some [], score = Some 0.9\<rparr>],
         textAnnotations = None\<rparr> = Inr []"
proof -
  have k: "''carrot'' \<in> set foodKeywords" by (simp add: foodKeywords_def)
  have lo: "toLowerCase ''Car'' = ''car''" by code_simp
  have "''carrot'' = [] @ ''car'' @ ''rot''" by simp
  then have "sublist ''car'' ''carrot''" unfolding sublist_def by blast
  with lo have sl: "sublist (toLowerCase ''Car'') ''carrot''" by simp
  have s: "(0.5::real) < 0.9" by simp
  from empty_label_food_related [of "''carrot''" "''Car''" "0.9"] k sl s
  show ?thesis by blast
qed

end
